theory Spec2Isabelle
  imports Complex_Main "HOL-Library.Multiset"
begin

section \<open>The home-security hub of backend.py\<close>

text \<open>
  A shallow embedding of the sensor, event and risk-assessment core of \<^verbatim>\<open>backend.py\<close>.
  The three database tables are lists of rows in insertion order (SQLite's rowid
  order), the module-level \<^verbatim>\<open>manager\<close> is a list of attached sockets, and every
  endpoint is a function from the state to a result and the state it leaves. An
  exception is a value \<open>Inl e\<close>; the state beside it is the one the exception leaves
  behind (every \<^verbatim>\<open>db.execute\<close> commits by itself, there is no transaction around an
  endpoint).

  What the process takes from outside is the record \<open>env\<close>: the draws of
  \<^verbatim>\<open>uuid.uuid4()\<close> and \<^verbatim>\<open>datetime.utcnow()\<close> (the n-th draw of a call) and the part of
  the Unicode character database that \<^verbatim>\<open>str.lower\<close> reads for code points outside ASCII.
  Whether a socket accepts \<^verbatim>\<open>send_text\<close> is the set \<open>closed\<close> of the state.

  Python strings that the code lowers or copies into a payload are lists of Unicode code
  points; identifiers, column values and dictionary keys that are only compared are
  8-bit strings. Outside the model: the HTTP layer (routing and the \<^verbatim>\<open>response_model\<close>
  conversion), the users table with register and login, and the column
  \<^verbatim>\<open>created_at\<close>, which is nullable and which no modelled endpoint reads.
\<close>

subsection \<open>Rows, messages and the state\<close>

type_synonym timestamp = int
type_synonym ws = nat
type_synonym codepoint = nat
type_synonym unicode = "codepoint list"
type_synonym pydict = "(string \<times> unicode) list"

text \<open>A string literal of the source, all of whose characters are ASCII.\<close>

definition ascii :: "string \<Rightarrow> unicode" where
  "ascii s = map of_char s"

record sensor =
  sensor_id :: string
  sensor_name :: unicode
  sensor_type :: string
  is_triggered :: int
  sensitivity :: real

record event =
  event_id :: string
  event_timestamp :: timestamp
  event_level :: string
  event_source :: string
  event_payload :: "pydict option"

record risk_assessment =
  ra_id :: string
  ra_timestamp :: timestamp
  ra_score :: int
  ra_risk_level :: string
  ra_details :: "pydict option"

text \<open>The dictionary \<^verbatim>\<open>{"type": ..., "event": {"level": ..., "source": ..., "payload": ...}}\<close>.\<close>

record event_body =
  body_level :: string
  body_source :: string
  body_payload :: "pydict option"

record message =
  msg_type :: string
  msg_event :: event_body

datatype error = TypeError | IntegrityError | OverflowError | SendError

text \<open>The dictionaries the endpoints return: \<^verbatim>\<open>{"status": ...}\<close> with an optional \<^verbatim>\<open>"level"\<close>.\<close>

record response =
  status :: string
  level :: "int option"

record state =
  sensors :: "sensor list"
  events :: "event list"
  risk_assessments :: "risk_assessment list"
  active :: "ws list"
  closed :: "ws set"
  delivered :: "(ws \<times> message) list"

text \<open>
  \<open>unicode_lower e before c after\<close> is the lower case the Unicode database gives the
  code point \<open>c\<close> standing between \<open>before\<close> and \<open>after\<close> (the capital sigma's depends
  on them); the model asks it only about the code points for which
  \<open>to_lower_full\<close> below has no explicit answer.
\<close>

record env =
  uuid4 :: "nat \<Rightarrow> string"
  utcnow :: "nat \<Rightarrow> timestamp"
  unicode_lower :: "unicode \<Rightarrow> codepoint \<Rightarrow> unicode \<Rightarrow> unicode"

definition empty_db :: state where
  "empty_db = \<lparr>sensors = [], events = [], risk_assessments = [], active = [],
     closed = {}, delivered = []\<rparr>"

subsection \<open>Strings: \<^verbatim>\<open>lower\<close> and \<^verbatim>\<open>in\<close>\<close>

text \<open>
  \<^verbatim>\<open>str.lower\<close> maps every code point to its full lower case. On ASCII that is the
  small letter of a capital A..Z (65..90, 32 further on) and the code point itself
  otherwise. Outside ASCII two code points have a lower case with an ASCII letter in
  it: the Kelvin sign U+212A (8490) lowers to k (107), and the capital I with dot
  above U+0130 (304) to i (105) followed by the combining dot U+0307 (775). Every
  other code point is left to \<open>unicode_lower\<close>.
\<close>

definition to_lower_full :: "env \<Rightarrow> unicode \<Rightarrow> codepoint \<Rightarrow> unicode \<Rightarrow> unicode" where
  "to_lower_full e before c after =
     (if c < 128 then [if 65 \<le> c \<and> c \<le> 90 then c + 32 else c]
      else if c = 8490 then [107]
      else if c = 304 then [105, 775]
      else unicode_lower e before c after)"

fun lower_from :: "env \<Rightarrow> unicode \<Rightarrow> unicode \<Rightarrow> unicode" where
  "lower_from e before [] = []"
| "lower_from e before (c # cs) =
     to_lower_full e before c cs @ lower_from e (before @ [c]) cs"

definition lower :: "env \<Rightarrow> unicode \<Rightarrow> unicode" where
  "lower e s = lower_from e [] s"

text \<open>
  What the model needs of the rest of the database, and what holds of Python's: a code
  point outside ASCII (other than the two above) has a lower case that is not empty
  and has no ASCII code point in it.
\<close>

definition unicode_lower_ok :: "env \<Rightarrow> bool" where
  "unicode_lower_ok e \<longleftrightarrow>
     (\<forall>before c after. 128 \<le> c \<longrightarrow>
        unicode_lower e before c after \<noteq> [] \<and>
        (\<forall>x\<in>set (unicode_lower e before c after). 128 \<le> x))"

text \<open>\<^verbatim>\<open>kw in txt\<close> on strings: \<open>kw\<close> occurs in \<open>txt\<close> as a contiguous run.\<close>

fun starts_with :: "'a list \<Rightarrow> 'a list \<Rightarrow> bool" where
  "starts_with [] txt = True"
| "starts_with (k # ks) [] = False"
| "starts_with (k # ks) (c # cs) = (k = c \<and> starts_with ks cs)"

fun str_in :: "'a list \<Rightarrow> 'a list \<Rightarrow> bool" where
  "str_in kw [] = (kw = [])"
| "str_in kw (c # cs) = (starts_with kw (c # cs) \<or> str_in kw cs)"

subsection \<open>The notification hub: \<^verbatim>\<open>ConnectionManager\<close>\<close>

definition disconnect :: "ws \<Rightarrow> state \<Rightarrow> state" where
  "disconnect w st =
     (if w \<in> set (active st) then st\<lparr>active := remove1 w (active st)\<rparr> else st)"

text \<open>\<^verbatim>\<open>conn.send_text\<close>: raises on a closed socket, otherwise the viewer has the message.\<close>

definition send_text :: "ws \<Rightarrow> message \<Rightarrow> state \<Rightarrow> (error + unit) \<times> state" where
  "send_text conn m st =
     (if conn \<in> closed st then (Inl SendError, st)
      else (Inr (), st\<lparr>delivered := delivered st @ [(conn, m)]\<rparr>))"

text \<open>
  The body of \<^verbatim>\<open>broadcast\<close>'s loop over the copy \<^verbatim>\<open>list(self.active)\<close>: the bare
  \<^verbatim>\<open>except\<close> turns every exception of the send into a \<^verbatim>\<open>disconnect\<close>.
\<close>

fun broadcast_loop :: "ws list \<Rightarrow> message \<Rightarrow> state \<Rightarrow> (error + unit) \<times> state" where
  "broadcast_loop [] m st = (Inr (), st)"
| "broadcast_loop (conn # conns) m st =
     (case send_text conn m st of
        (Inl e, st1) \<Rightarrow> broadcast_loop conns m (disconnect conn st1)
      | (Inr u, st1) \<Rightarrow> broadcast_loop conns m st1)"

definition broadcast :: "message \<Rightarrow> state \<Rightarrow> (error + unit) \<times> state" where
  "broadcast m st = broadcast_loop (active st) m st"

subsection \<open>The tables\<close>

text \<open>
  An integer bound to a statement must fit SQLite's signed 64-bit INTEGER; the driver
  raises \<^verbatim>\<open>OverflowError\<close> for any other before the statement runs.
\<close>

definition sqlite_integer :: "int \<Rightarrow> bool" where
  "sqlite_integer n \<longleftrightarrow> - (2 ^ 63) \<le> n \<and> n < 2 ^ 63"

text \<open>\<^verbatim>\<open>id\<close> is the primary key of every table: an insert of a key already there raises.\<close>

definition insert_event :: "event \<Rightarrow> state \<Rightarrow> (error + unit) \<times> state" where
  "insert_event r st =
     (if event_id r \<in> set (map event_id (events st)) then (Inl IntegrityError, st)
      else (Inr (), st\<lparr>events := events st @ [r]\<rparr>))"

text \<open>
  The insert into \<^verbatim>\<open>sensors\<close>, with the value bound for each column. \<^verbatim>\<open>sensitivity\<close> is
  declared \<^verbatim>\<open>nullable=False\<close>: binding no value to it (\<open>None\<close>) violates the constraint.
\<close>

definition insert_sensor ::
  "string \<Rightarrow> unicode \<Rightarrow> string \<Rightarrow> int \<Rightarrow> real option \<Rightarrow> state \<Rightarrow> (error + unit) \<times> state" where
  "insert_sensor sid nm ty trig sens st =
     (case sens of
        None \<Rightarrow> (Inl IntegrityError, st)
      | Some x \<Rightarrow>
          if sid \<in> set (map sensor_id (sensors st)) then (Inl IntegrityError, st)
          else (Inr (), st\<lparr>sensors := sensors st @
                  [\<lparr>sensor_id = sid, sensor_name = nm, sensor_type = ty, is_triggered = trig,
                    sensitivity = x\<rparr>]\<rparr>))"

definition insert_assessment :: "risk_assessment \<Rightarrow> state \<Rightarrow> (error + unit) \<times> state" where
  "insert_assessment r st =
     (if \<not> sqlite_integer (ra_score r) then (Inl OverflowError, st)
      else if ra_id r \<in> set (map ra_id (risk_assessments st)) then (Inl IntegrityError, st)
      else (Inr (), st\<lparr>risk_assessments := risk_assessments st @ [r]\<rparr>))"

text \<open>\<^verbatim>\<open>sensors.update().where(sensors.c.id == sensor_id).values(is_triggered=lvl)\<close>.\<close>

definition update_is_triggered :: "string \<Rightarrow> int \<Rightarrow> state \<Rightarrow> state" where
  "update_is_triggered sid lvl st =
     st\<lparr>sensors := map (\<lambda>s. if sensor_id s = sid then s\<lparr>is_triggered := lvl\<rparr> else s)
       (sensors st)\<rparr>"

text \<open>\<^verbatim>\<open>db.fetch_one(select([sensors]).where(sensors.c.id == sensor_id))\<close>.\<close>

definition fetch_sensor :: "string \<Rightarrow> state \<Rightarrow> sensor option" where
  "fetch_sensor sid st = find (\<lambda>s. sensor_id s = sid) (sensors st)"

text \<open>
  \<^verbatim>\<open>ORDER BY timestamp DESC\<close>: the rows with the later timestamp first. SQLite reads
  the table in insertion order and its sort keeps that order among rows of equal
  timestamp.
\<close>

definition order_by_desc :: "('r \<Rightarrow> timestamp) \<Rightarrow> 'r list \<Rightarrow> 'r list" where
  "order_by_desc key rows = sort_key (\<lambda>r. - key r) rows"

text \<open>\<^verbatim>\<open>LIMIT n\<close>; SQLite reads a negative limit as no limit.\<close>

definition sql_limit :: "int \<Rightarrow> 'a list \<Rightarrow> 'a list" where
  "sql_limit n rows = (if n < 0 then rows else take (nat n) rows)"

subsection \<open>\<^verbatim>\<open>log_event\<close>\<close>

text \<open>\<^verbatim>\<open>json.dumps(payload) if payload else None\<close>: \<^verbatim>\<open>None\<close> and the empty dictionary are
  false. The JSON text is kept as the dictionary it encodes.\<close>

definition stored_payload :: "pydict option \<Rightarrow> pydict option" where
  "stored_payload payload =
     (case payload of None \<Rightarrow> None | Some [] \<Rightarrow> None | Some (kv # kvs) \<Rightarrow> Some (kv # kvs))"

definition log_event ::
  "env \<Rightarrow> string \<Rightarrow> string \<Rightarrow> pydict option \<Rightarrow> state \<Rightarrow> (error + unit) \<times> state" where
  "log_event e lvl src payload st =
     (let ev_id = uuid4 e 0;
          now = utcnow e 0
      in case insert_event \<lparr>event_id = ev_id, event_timestamp = now, event_level = lvl,
                event_source = src, event_payload = stored_payload payload\<rparr> st of
           (Inl err, st1) \<Rightarrow> (Inl err, st1)
         | (Inr u, st1) \<Rightarrow>
             broadcast \<lparr>msg_type = ''event'',
               msg_event = \<lparr>body_level = lvl, body_source = src, body_payload = payload\<rparr>\<rparr> st1)"

subsection \<open>The sensor endpoints\<close>

text \<open>The \<^verbatim>\<open>if active:\<close> block that sets \<^verbatim>\<open>trigger_level\<close>.\<close>

definition trigger_level_of :: "env \<Rightarrow> bool \<Rightarrow> unicode \<Rightarrow> int" where
  "trigger_level_of e act event_text =
     (if act then
        (let txt = lower e event_text
         in if str_in (ascii ''break'') txt \<or> str_in (ascii ''force'') txt \<or>
               str_in (ascii ''critical'') txt then 3
            else if str_in (ascii ''tamper'') txt \<or> str_in (ascii ''warn'') txt then 2
            else 1)
      else 0)"

definition severity_of :: "int \<Rightarrow> string" where
  "severity_of trigger_level =
     (if trigger_level = 3 then ''critical''
      else if trigger_level = 2 then ''warn'' else ''info'')"

definition manual_trigger ::
  "env \<Rightarrow> string \<Rightarrow> bool \<Rightarrow> unicode \<Rightarrow> state \<Rightarrow> (error + response) \<times> state" where
  "manual_trigger e sid act event_text st =
     (let trigger_level = trigger_level_of e act event_text;
          st1 = update_is_triggered sid trigger_level st
      in if act then
           (case fetch_sensor sid st1 of
              None \<Rightarrow> (Inl TypeError, st1)
            | Some s \<Rightarrow>
                (case log_event e (severity_of trigger_level) ''manual.trigger''
                        (Some [(''sensor'', sensor_name s), (''msg'', event_text)]) st1 of
                   (Inl err, st2) \<Rightarrow> (Inl err, st2)
                 | (Inr u, st2) \<Rightarrow>
                     (Inr \<lparr>status = ''updated'', level = Some trigger_level\<rparr>, st2)))
         else (Inr \<lparr>status = ''updated'', level = Some trigger_level\<rparr>, st1))"

text \<open>The query parameters \<^verbatim>\<open>active: bool = True, event_text: str = "Manual Trigger"\<close>:
  \<open>None\<close> is a parameter the request leaves out.\<close>

definition manual_trigger_request ::
  "env \<Rightarrow> string \<Rightarrow> bool option \<Rightarrow> unicode option \<Rightarrow> state \<Rightarrow> (error + response) \<times> state" where
  "manual_trigger_request e sid act event_text st =
     manual_trigger e sid (case act of None \<Rightarrow> True | Some a \<Rightarrow> a)
       (case event_text of None \<Rightarrow> ascii ''Manual Trigger'' | Some t \<Rightarrow> t) st"

definition reset_sensor :: "string \<Rightarrow> state \<Rightarrow> (error + response) \<times> state" where
  "reset_sensor sid st =
     (Inr \<lparr>status = ''reset'', level = None\<rparr>, update_is_triggered sid 0 st)"

text \<open>The level the registry holds for a sensor id, \<open>None\<close> for an id it does not know.\<close>

definition alert_level :: "string \<Rightarrow> state \<Rightarrow> int option" where
  "alert_level sid st = map_option is_triggered (fetch_sensor sid st)"

definition known :: "string \<Rightarrow> state \<Rightarrow> bool" where
  "known sid st = (sid \<in> set (map sensor_id (sensors st)))"

subsection \<open>Startup: seeding the sensors\<close>

definition seed :: "(string \<times> string) list" where
  "seed = [(''Front Door'', ''door''), (''Kitchen Window'', ''window''),
           (''Living Room Motion'', ''motion''), (''Backyard Camera'', ''camera'')]"

text \<open>
  The loop \<^verbatim>\<open>for name, type_ in seed\<close>; \<open>k\<close> counts the identifiers drawn so far. The
  insert gives \<^verbatim>\<open>id\<close>, \<^verbatim>\<open>name\<close>, \<^verbatim>\<open>type\<close> and \<^verbatim>\<open>is_triggered\<close>. The column's
  \<^verbatim>\<open>default=1.0\<close> is a default of the SQLAlchemy engine, which this program does not
  execute statements with: the \<^verbatim>\<open>databases\<close> driver compiles the statement and binds
  no value to \<^verbatim>\<open>sensitivity\<close>.
\<close>

fun seed_loop ::
  "env \<Rightarrow> nat \<Rightarrow> (string \<times> string) list \<Rightarrow> state \<Rightarrow> (error + unit) \<times> state" where
  "seed_loop e k [] st = (Inr (), st)"
| "seed_loop e k ((nm, ty) # rest) st =
     (case insert_sensor (uuid4 e k) (ascii nm) ty 0 None st of
        (Inl err, st1) \<Rightarrow> (Inl err, st1)
      | (Inr u, st1) \<Rightarrow> seed_loop e (Suc k) rest st1)"

definition startup :: "env \<Rightarrow> state \<Rightarrow> (error + unit) \<times> state" where
  "startup e st = (if length (sensors st) = 0 then seed_loop e 0 seed st else (Inr (), st))"

subsection \<open>Events and risk assessments\<close>

definition get_events :: "int \<Rightarrow> state \<Rightarrow> (error + event list) \<times> state" where
  "get_events limit st =
     (if sqlite_integer limit
      then (Inr (sql_limit limit (order_by_desc event_timestamp (events st))), st)
      else (Inl OverflowError, st))"

text \<open>The query parameter \<^verbatim>\<open>limit: int = 20\<close>.\<close>

definition get_events_request :: "int option \<Rightarrow> state \<Rightarrow> (error + event list) \<times> state" where
  "get_events_request limit st = get_events (case limit of None \<Rightarrow> 20 | Some n \<Rightarrow> n) st"

definition save_assessment ::
  "env \<Rightarrow> int \<Rightarrow> pydict \<Rightarrow> state \<Rightarrow> (error + response) \<times> state" where
  "save_assessment e score details st =
     (let risk = (if score \<ge> 80 then ''Safe'' else ''Risk'')
      in case insert_assessment \<lparr>ra_id = uuid4 e 0, ra_timestamp = utcnow e 0,
                ra_score = score, ra_risk_level = risk, ra_details = Some details\<rparr> st of
           (Inl err, st1) \<Rightarrow> (Inl err, st1)
         | (Inr u, st1) \<Rightarrow> (Inr \<lparr>status = ''saved'', level = None\<rparr>, st1))"

text \<open>\<^verbatim>\<open>fetch_one\<close> of the query with \<^verbatim>\<open>LIMIT 1\<close>: the first row, or \<^verbatim>\<open>None\<close>.\<close>

definition get_latest_assessment :: "state \<Rightarrow> (error + risk_assessment option) \<times> state" where
  "get_latest_assessment st =
     (Inr (case sql_limit 1 (order_by_desc ra_timestamp (risk_assessments st)) of
             [] \<Rightarrow> None | r # rs \<Rightarrow> Some r), st)"

subsection \<open>Sequences of operations\<close>

datatype operation =
    Startup env
  | Trigger env string "bool option" "unicode option"
  | Reset string

fun apply_operation :: "operation \<Rightarrow> state \<Rightarrow> state" where
  "apply_operation (Startup e) st = snd (startup e st)"
| "apply_operation (Trigger e sid act event_text) st =
     snd (manual_trigger_request e sid act event_text st)"
| "apply_operation (Reset sid) st = snd (reset_sensor sid st)"

definition run :: "operation list \<Rightarrow> state \<Rightarrow> state" where
  "run ops st = fold apply_operation ops st"

definition levels_ok :: "state \<Rightarrow> bool" where
  "levels_ok st = list_all (\<lambda>s. is_triggered s \<in> {0, 1, 2, 3}) (sensors st)"

subsection \<open>The specification's classification, in its own words\<close>

text \<open>
  A character of the text matches a letter of a keyword, case ignored, when it is that
  small letter or a capital form of it: the capital letter of the alphabet and, for k,
  the Kelvin sign (the one other character that Unicode gives the lower case k). A
  keyword occurs in a text case-insensitively when some run of the text, as long as
  the keyword, matches it letter by letter.
\<close>

definition alphabet :: "(char \<times> char) list" where
  "alphabet =
     [(CHR ''a'', CHR ''A''), (CHR ''b'', CHR ''B''), (CHR ''c'', CHR ''C''),
      (CHR ''d'', CHR ''D''), (CHR ''e'', CHR ''E''), (CHR ''f'', CHR ''F''),
      (CHR ''g'', CHR ''G''), (CHR ''h'', CHR ''H''), (CHR ''i'', CHR ''I''),
      (CHR ''j'', CHR ''J''), (CHR ''k'', CHR ''K''), (CHR ''l'', CHR ''L''),
      (CHR ''m'', CHR ''M''), (CHR ''n'', CHR ''N''), (CHR ''o'', CHR ''O''),
      (CHR ''p'', CHR ''P''), (CHR ''q'', CHR ''Q''), (CHR ''r'', CHR ''R''),
      (CHR ''s'', CHR ''S''), (CHR ''t'', CHR ''T''), (CHR ''u'', CHR ''U''),
      (CHR ''v'', CHR ''V''), (CHR ''w'', CHR ''W''), (CHR ''x'', CHR ''X''),
      (CHR ''y'', CHR ''Y''), (CHR ''z'', CHR ''Z'')]"

definition capital_forms :: "char \<Rightarrow> codepoint list" where
  "capital_forms l =
     map (of_char \<circ> snd) (filter (\<lambda>p. fst p = l) alphabet) @
     (if l = CHR ''k'' then [8490] else [])"

definition ci_match :: "codepoint \<Rightarrow> char \<Rightarrow> bool" where
  "ci_match c l = (c = of_char l \<or> c \<in> set (capital_forms l))"

definition ci_prefix :: "string \<Rightarrow> unicode \<Rightarrow> bool" where
  "ci_prefix kw t = list_all2 ci_match (take (length kw) t) kw"

definition ci_contains :: "unicode \<Rightarrow> string \<Rightarrow> bool" where
  "ci_contains t kw = list_ex (\<lambda>i. ci_prefix kw (drop i t)) [0..<Suc (length t)]"

definition spec_level :: "unicode \<Rightarrow> int" where
  "spec_level t =
     (if ci_contains t ''break'' \<or> ci_contains t ''force'' \<or> ci_contains t ''critical''
      then 3
      else if ci_contains t ''tamper'' \<or> ci_contains t ''warn'' then 2
      else 1)"

subsection \<open>A small installation, for concrete runs\<close>

text \<open>
  A database whose sensors were put there from outside the program, one stored
  event, three attached viewers of which the second has closed its socket.
\<close>

definition demo_env :: "string \<Rightarrow> timestamp \<Rightarrow> env" where
  "demo_env u t =
     \<lparr>uuid4 = (\<lambda>k. u @ replicate k CHR ''+''), utcnow = (\<lambda>k. t),
      unicode_lower = (\<lambda>before c after. [c])\<rparr>"

definition demo_state :: state where
  "demo_state =
     \<lparr>sensors =
        [\<lparr>sensor_id = ''s1'', sensor_name = ascii ''Front Door'', sensor_type = ''door'',
          is_triggered = 0, sensitivity = 1\<rparr>,
         \<lparr>sensor_id = ''s2'', sensor_name = ascii ''Kitchen Window'', sensor_type = ''window'',
          is_triggered = 2, sensitivity = 1\<rparr>],
      events =
        [\<lparr>event_id = ''e1'', event_timestamp = 10, event_level = ''warn'',
          event_source = ''manual.trigger'',
          event_payload =
            Some [(''sensor'', ascii ''Kitchen Window''), (''msg'', ascii ''tamper'')]\<rparr>],
      risk_assessments = [],
      active = [1, 2, 3],
      closed = {2},
      delivered = []\<rparr>"

definition demo_message :: message where
  "demo_message =
     \<lparr>msg_type = ''event'',
      msg_event = \<lparr>body_level = ''info'', body_source = ''manual.trigger'',
        body_payload =
          Some [(''sensor'', ascii ''Front Door''), (''msg'', ascii ''Manual Trigger'')]\<rparr>\<rparr>"

definition three_events :: "event list" where
  "three_events =
     [\<lparr>event_id = ''e1'', event_timestamp = 10, event_level = ''info'',
       event_source = ''manual.trigger'', event_payload = None\<rparr>,
      \<lparr>event_id = ''e2'', event_timestamp = 30, event_level = ''warn'',
       event_source = ''manual.trigger'', event_payload = None\<rparr>,
      \<lparr>event_id = ''e3'', event_timestamp = 20, event_level = ''critical'',
       event_source = ''manual.trigger'', event_payload = None\<rparr>]"




text \<open>
  What the proofs use of a keyword of the source: it is not empty, its letters are small
  letters of the alphabet, and it does not end in i.
\<close>

definition keyword :: "string \<Rightarrow> bool" where
  "keyword kw \<longleftrightarrow> kw \<noteq> [] \<and> set kw \<subseteq> fst ` set alphabet \<and> last kw \<noteq> CHR ''i''"

section \<open>Auxiliary facts\<close>

subsection \<open>Strings: lowering and searching\<close>

lemma alphabet_codes:
  "p \<in> set alphabet \<Longrightarrow>
   97 \<le> (of_char (fst p) :: nat) \<and> (of_char (fst p) :: nat) \<le> 122 \<and>
   (of_char (snd p) :: nat) + 32 = of_char (fst p)"
  unfolding alphabet_def by (elim disjE | simp)+

lemma capital_forms_iff:
  "c \<in> set (capital_forms l) \<longleftrightarrow>
     (\<exists>C. (l, C) \<in> set alphabet \<and> c = of_char C) \<or> (l = CHR ''k'' \<and> c = 8490)"
  by (force simp: capital_forms_def)

lemma ci_match_ascii:
  assumes l: "l \<in> fst ` set alphabet" and c: "c < 128"
  shows "(of_char l = (if 65 \<le> c \<and> c \<le> 90 then c + 32 else c)) \<longleftrightarrow> ci_match c l"
proof -
  from l obtain C where p: "(l, C) \<in> set alphabet" by auto
  have n: "97 \<le> (of_char l :: nat)" "(of_char l :: nat) \<le> 122"
    "(of_char C :: nat) + 32 = of_char l"
    using alphabet_codes [OF p] by simp_all
  have caps: "c \<in> set (capital_forms l) \<longleftrightarrow> c = of_char C"
  proof
    assume "c \<in> set (capital_forms l)"
    then obtain C' where p': "(l, C') \<in> set alphabet" and c': "c = of_char C'"
      using c by (auto simp: capital_forms_iff)
    have "(of_char C' :: nat) + 32 = of_char l" using alphabet_codes [OF p'] by simp
    with n(3) have "(of_char C' :: nat) = of_char C" by linarith
    with c' show "c = of_char C" by simp
  next
    assume "c = of_char C"
    with p show "c \<in> set (capital_forms l)" by (auto simp: capital_forms_iff)
  qed
  show ?thesis unfolding ci_match_def caps using n by auto
qed

lemma ci_match_beyond_ascii:
  assumes l: "l \<in> fst ` set alphabet" and c: "128 \<le> c"
  shows "ci_match c l \<longleftrightarrow> l = CHR ''k'' \<and> c = 8490"
proof -
  from l obtain C where p: "(l, C) \<in> set alphabet" by auto
  have small: "(of_char (fst q) :: nat) \<le> 122" "(of_char (snd q) :: nat) \<le> 122"
    if "q \<in> set alphabet" for q
    using alphabet_codes [OF that] by simp_all
  have "c \<noteq> of_char l" using small(1) [OF p] c by simp
  moreover have "c \<noteq> of_char C'" if "(l, C') \<in> set alphabet" for C'
    using small(2) [OF that] c by simp
  ultimately show ?thesis by (auto simp: ci_match_def capital_forms_iff)
qed

lemma keyword_tl: "keyword (k # k' # ks) \<Longrightarrow> keyword (k' # ks)"
  by (simp add: keyword_def)

lemma keyword_codes:
  assumes "keyword kw" and "k \<in> set kw"
  shows "(of_char k :: nat) < 128" and "97 \<le> (of_char k :: nat)"
proof -
  from assms obtain p where "p \<in> set alphabet" "k = fst p" by (auto simp: keyword_def)
  then show "(of_char k :: nat) < 128" and "97 \<le> (of_char k :: nat)"
    using alphabet_codes [of p] by simp_all
qed

text \<open>What \<open>to_lower_full\<close> returns: one code point, followed by code points beyond ASCII.\<close>

lemma to_lower_full_shape:
  assumes "unicode_lower_ok e"
  shows "\<exists>y ys. to_lower_full e b c a = y # ys \<and> (\<forall>x\<in>set ys. 128 \<le> x) \<and>
           (128 \<le> c \<longrightarrow> c \<noteq> 8490 \<longrightarrow> c \<noteq> 304 \<longrightarrow> 128 \<le> y)"
proof (cases "c < 128 \<or> c = 8490 \<or> c = 304")
  case True
  then show ?thesis by (auto simp: to_lower_full_def)
next
  case False
  then have c: "128 \<le> c" and eq: "to_lower_full e b c a = unicode_lower e b c a"
    by (auto simp: to_lower_full_def)
  from assms c have ne: "unicode_lower e b c a \<noteq> []"
    and big: "\<forall>x\<in>set (unicode_lower e b c a). 128 \<le> x"
    by (auto simp: unicode_lower_ok_def)
  from ne obtain y ys where "unicode_lower e b c a = y # ys" by (cases "unicode_lower e b c a") auto
  with big eq show ?thesis by auto
qed

lemma starts_with_append_beyond:
  assumes "\<forall>x\<in>set ys. 128 \<le> x" and "\<forall>k\<in>set ks. k < (128 :: nat)" and "ks \<noteq> []"
  shows "starts_with ks (ys @ rest) \<longleftrightarrow> ys = [] \<and> starts_with ks rest"
proof (cases ys)
  case Nil
  then show ?thesis by simp
next
  case (Cons y ys')
  from assms(3) obtain k ks' where ks: "ks = k # ks'" by (cases ks) auto
  with assms Cons have "k \<noteq> y" by auto
  with ks Cons show ?thesis by simp
qed

lemma str_in_append_beyond:
  assumes "\<forall>x\<in>set ys. 128 \<le> x" and "\<forall>k\<in>set ks. k < (128 :: nat)" and "ks \<noteq> []"
  shows "str_in ks (ys @ rest) \<longleftrightarrow> str_in ks rest"
  using assms(1)
proof (induction ys)
  case Nil
  then show ?case by simp
next
  case (Cons y ys)
  from assms(3) obtain k ks' where ks: "ks = k # ks'" by (cases ks) auto
  with assms(2) Cons.prems have "k \<noteq> y" by auto
  with ks have "\<not> starts_with ks (y # ys @ rest)" by simp
  with Cons show ?case by simp
qed

lemma code_k: "(of_char c :: nat) = 107 \<longleftrightarrow> c = CHR ''k''"
proof -
  have "(of_char c :: nat) = of_char (CHR ''k'') \<longleftrightarrow> c = CHR ''k''" by (rule of_char_eq_iff)
  then show ?thesis by simp
qed

lemma code_i: "(of_char c :: nat) = 105 \<longleftrightarrow> c = CHR ''i''"
proof -
  have "(of_char c :: nat) = of_char (CHR ''i'') \<longleftrightarrow> c = CHR ''i''" by (rule of_char_eq_iff)
  then show ?thesis by simp
qed


lemma starts_with_lower:
  assumes ok: "unicode_lower_ok e"
  shows "keyword kw \<or> kw = [] \<Longrightarrow> starts_with (ascii kw) (lower_from e b t) \<longleftrightarrow> ci_prefix kw t"
proof (induction kw arbitrary: b t)
  case Nil
  then show ?case by (simp add: ascii_def ci_prefix_def)
next
  case (Cons k ks)
  then have kw: "keyword (k # ks)" by simp
  then have k: "k \<in> fst ` set alphabet" by (simp add: keyword_def)
  have kc: "(of_char k :: nat) < 128" using keyword_codes(1) [OF kw, of k] by simp
  have tail: "keyword ks \<or> ks = []"
    using kw by (cases ks) (simp_all add: keyword_tl)
  have ksc: "\<forall>x\<in>set (ascii ks). x < 128"
    using keyword_codes(1) [OF kw] by (auto simp: ascii_def)
  show ?case
  proof (cases t)
    case Nil
    then show ?thesis by (simp add: ascii_def ci_prefix_def)
  next
    case (Cons c cs)
    have IH: "starts_with (ascii ks) (lower_from e (b @ [c]) cs) \<longleftrightarrow> ci_prefix ks cs"
      using Cons.IH [OF tail] .
    have spec: "ci_prefix (k # ks) (c # cs) \<longleftrightarrow> ci_match c k \<and> ci_prefix ks cs"
      by (simp add: ci_prefix_def)
    consider (ascii) "c < 128" | (kelvin) "c = 8490" | (dotted) "c = 304"
      | (other) "128 \<le> c" "c \<noteq> 8490" "c \<noteq> 304"
      by linarith
    then have "starts_with (ascii (k # ks)) (to_lower_full e b c cs @ lower_from e (b @ [c]) cs)
        \<longleftrightarrow> ci_match c k \<and> ci_prefix ks cs"
    proof cases
      case ascii
      have "to_lower_full e b c cs = [if 65 \<le> c \<and> c \<le> 90 then c + 32 else c]"
        using ascii by (simp add: to_lower_full_def)
      then have "starts_with (ascii (k # ks)) (to_lower_full e b c cs @ lower_from e (b @ [c]) cs)
          \<longleftrightarrow> of_char k = (if 65 \<le> c \<and> c \<le> 90 then c + 32 else c) \<and>
            starts_with (ascii ks) (lower_from e (b @ [c]) cs)"
        by (simp add: ascii_def)
      then show ?thesis
        unfolding IH ci_match_ascii [OF k ascii] .
    next
      case kelvin
      have "ci_match c k \<longleftrightarrow> k = CHR ''k''"
        using ci_match_beyond_ascii [OF k, of c] kelvin by simp
      then show ?thesis
        using kelvin IH by (simp add: to_lower_full_def ascii_def code_k)
    next
      case dotted
      have no: "\<not> ci_match c k"
        using ci_match_beyond_ascii [OF k, of c] dotted by simp
      have "\<not> starts_with (ascii (k # ks)) (105 # 775 # lower_from e (b @ [c]) cs)"
      proof (cases ks)
        case Nil
        then have "k \<noteq> CHR ''i''" using kw by (simp add: keyword_def)
        then have "(of_char k :: nat) \<noteq> 105" by (simp add: code_i)
        then show ?thesis by (simp add: ascii_def)
      next
        case (Cons k' ks')
        then have "(of_char k' :: nat) < 128" using keyword_codes(1) [OF kw, of k'] by simp
        then show ?thesis using Cons by (simp add: ascii_def)
      qed
      with no dotted show ?thesis by (simp add: to_lower_full_def)
    next
      case other
      have no: "\<not> ci_match c k"
        using ci_match_beyond_ascii [OF k, of c] other by simp
      obtain y ys where y: "to_lower_full e b c cs = y # ys" "128 \<le> y"
        using to_lower_full_shape [OF ok, of b c cs] other by auto
      then have "of_char k \<noteq> y" using kc by auto
      with y no show ?thesis by (simp add: ascii_def)
    qed
    with Cons spec show ?thesis by simp
  qed
qed

lemma exists_upto_Cons:
  "(\<exists>i\<le>length (c # cs). P (drop i (c # cs))) \<longleftrightarrow> P (c # cs) \<or> (\<exists>i\<le>length cs. P (drop i cs))"
  (is "?L \<longleftrightarrow> ?A \<or> ?B")
proof
  assume ?L
  then obtain i where i: "i \<le> length (c # cs)" "P (drop i (c # cs))" by blast
  show "?A \<or> ?B"
  proof (cases i)
    case 0
    with i show ?thesis by simp
  next
    case (Suc j)
    with i have "j \<le> length cs" "P (drop j cs)" by simp_all
    then show ?thesis by blast
  qed
next
  assume "?A \<or> ?B"
  then show ?L
  proof
    assume ?A
    then have "P (drop 0 (c # cs))" by simp
    then show ?L by blast
  next
    assume ?B
    then obtain j where "j \<le> length cs" "P (drop j cs)" by blast
    then have "Suc j \<le> length (c # cs)" "P (drop (Suc j) (c # cs))" by simp_all
    then show ?L by blast
  qed
qed

lemma str_in_lower:
  assumes ok: "unicode_lower_ok e" and kw: "keyword kw"
  shows "str_in (ascii kw) (lower_from e b t) \<longleftrightarrow> (\<exists>i\<le>length t. ci_prefix kw (drop i t))"
proof (induction t arbitrary: b)
  case Nil
  from kw have "kw \<noteq> []" by (simp add: keyword_def)
  then show ?case by (simp add: ascii_def ci_prefix_def)
next
  case (Cons c cs)
  from kw have ne: "ascii kw \<noteq> []" by (simp add: keyword_def ascii_def)
  have small: "\<forall>k\<in>set (ascii kw). k < 128"
    using keyword_codes(1) [OF kw] by (auto simp: ascii_def)
  obtain y ys where out: "to_lower_full e b c cs = y # ys" and big: "\<forall>x\<in>set ys. 128 \<le> x"
    using to_lower_full_shape [OF ok, of b c cs] by blast
  have "str_in (ascii kw) (lower_from e b (c # cs)) \<longleftrightarrow>
        starts_with (ascii kw) (lower_from e b (c # cs)) \<or>
        str_in (ascii kw) (ys @ lower_from e (b @ [c]) cs)"
    by (simp add: out)
  also have "\<dots> \<longleftrightarrow> starts_with (ascii kw) (lower_from e b (c # cs)) \<or>
        str_in (ascii kw) (lower_from e (b @ [c]) cs)"
    by (simp only: str_in_append_beyond [OF big small ne])
  also have "\<dots> \<longleftrightarrow> ci_prefix kw (c # cs) \<or> (\<exists>i\<le>length cs. ci_prefix kw (drop i cs))"
    using starts_with_lower [OF ok, of kw b "c # cs"] kw Cons.IH [of "b @ [c]"] by simp
  also have "\<dots> \<longleftrightarrow> (\<exists>i\<le>length (c # cs). ci_prefix kw (drop i (c # cs)))"
    by (rule exists_upto_Cons [symmetric])
  finally show ?case .
qed

lemma ci_contains_iff: "ci_contains t kw \<longleftrightarrow> (\<exists>i\<le>length t. ci_prefix kw (drop i t))"
  by (auto simp: ci_contains_def list_ex_iff less_Suc_eq_le simp del: upt_Suc)

lemma source_keywords:
  "keyword ''break''" "keyword ''force''" "keyword ''critical''" "keyword ''tamper''"
  "keyword ''warn''"
  by (simp_all add: keyword_def alphabet_def)

lemma trigger_level_spec:
  "unicode_lower_ok e \<Longrightarrow> trigger_level_of e True t = spec_level t"
  by (simp add: trigger_level_of_def spec_level_def Let_def lower_def str_in_lower source_keywords
      ci_contains_iff)

lemma trigger_level_range: "trigger_level_of e a t \<in> {0, 1, 2, 3}"
  by (simp add: trigger_level_of_def Let_def)

lemma unicode_lower_ok_demo: "unicode_lower_ok (demo_env u t)"
  by (simp add: unicode_lower_ok_def demo_env_def)

lemma manual_text_level: "trigger_level_of e True (ascii ''Manual Trigger'') = 1"
  by (simp add: trigger_level_of_def Let_def lower_def ascii_def to_lower_full_def)

subsection \<open>The hub\<close>

lemma broadcast_loop_eq:
  "active st = pre @ cs \<Longrightarrow> set pre \<inter> closed st = {} \<Longrightarrow>
   broadcast_loop cs m st =
     (Inr (), st\<lparr>active := pre @ filter (\<lambda>c. c \<notin> closed st) cs,
                 delivered := delivered st @ map (\<lambda>c. (c, m)) (filter (\<lambda>c. c \<notin> closed st) cs)\<rparr>)"
proof (induction cs arbitrary: st pre)
  case Nil
  then show ?case by simp
next
  case (Cons c cs)
  show ?case
  proof (cases "c \<in> closed st")
    case True
    with Cons.prems have notin: "c \<notin> set pre" by auto
    let ?st = "st\<lparr>active := pre @ cs\<rparr>"
    have d: "disconnect c st = ?st"
      using Cons.prems notin by (simp add: disconnect_def remove1_append)
    have "broadcast_loop (c # cs) m st = broadcast_loop cs m ?st"
      using True d by (simp add: send_text_def)
    also have "\<dots> = (Inr (), ?st\<lparr>active := pre @ filter (\<lambda>c. c \<notin> closed ?st) cs,
        delivered := delivered ?st @ map (\<lambda>c. (c, m)) (filter (\<lambda>c. c \<notin> closed ?st) cs)\<rparr>)"
      using Cons.prems by (intro Cons.IH) simp_all
    finally show ?thesis using True by simp
  next
    case False
    let ?st = "st\<lparr>delivered := delivered st @ [(c, m)]\<rparr>"
    have "broadcast_loop (c # cs) m st = broadcast_loop cs m ?st"
      using False by (simp add: send_text_def)
    also have "\<dots> = (Inr (), ?st\<lparr>active := (pre @ [c]) @ filter (\<lambda>c. c \<notin> closed ?st) cs,
        delivered := delivered ?st @ map (\<lambda>c. (c, m)) (filter (\<lambda>c. c \<notin> closed ?st) cs)\<rparr>)"
      using Cons.prems False by (intro Cons.IH) simp_all
    finally show ?thesis using False by simp
  qed
qed

lemma broadcast_eq:
  "broadcast m st =
     (Inr (), st\<lparr>active := filter (\<lambda>c. c \<notin> closed st) (active st),
                 delivered := delivered st @
                   map (\<lambda>c. (c, m)) (filter (\<lambda>c. c \<notin> closed st) (active st))\<rparr>)"
  using broadcast_loop_eq [of st "[]" "active st" m] by (simp add: broadcast_def)

subsection \<open>The registry\<close>

lemma find_update:
  "find (\<lambda>s. sensor_id s = sid)
     (map (\<lambda>s. if sensor_id s = sid then s\<lparr>is_triggered := lvl\<rparr> else s) xs) =
   map_option (\<lambda>s. s\<lparr>is_triggered := lvl\<rparr>) (find (\<lambda>s. sensor_id s = sid) xs)"
  by (induction xs) simp_all

lemma fetch_after_update:
  "fetch_sensor sid (update_is_triggered sid lvl st) =
     map_option (\<lambda>s. s\<lparr>is_triggered := lvl\<rparr>) (fetch_sensor sid st)"
  by (simp add: fetch_sensor_def update_is_triggered_def find_update)

lemma known_fetch: "known sid st \<longleftrightarrow> fetch_sensor sid st \<noteq> None"
  by (auto simp: known_def fetch_sensor_def find_None_iff)

lemma update_unknown: "\<not> known sid st \<Longrightarrow> update_is_triggered sid lvl st = st"
proof -
  assume "\<not> known sid st"
  then have "map (\<lambda>s. if sensor_id s = sid then s\<lparr>is_triggered := lvl\<rparr> else s) (sensors st)
             = sensors st"
    by (intro map_idI) (auto simp: known_def)
  then show ?thesis by (simp add: update_is_triggered_def)
qed

lemma alert_level_update:
  "alert_level sid (update_is_triggered sid lvl st) = (if known sid st then Some lvl else None)"
  by (auto simp: alert_level_def fetch_after_update known_fetch)

lemma alert_level_cong: "sensors a = sensors b \<Longrightarrow> alert_level sid a = alert_level sid b"
  by (simp add: alert_level_def fetch_sensor_def)

lemma levels_ok_update:
  "levels_ok st \<Longrightarrow> lvl \<in> {0, 1, 2, 3} \<Longrightarrow> levels_ok (update_is_triggered sid lvl st)"
  by (auto simp: levels_ok_def update_is_triggered_def list_all_iff)

subsection \<open>log_event and manual_trigger, evaluated\<close>

lemma log_event_eq:
  "log_event e lvl src payload st =
     (if uuid4 e 0 \<in> set (map event_id (events st)) then (Inl IntegrityError, st)
      else (Inr (),
        st\<lparr>events := events st @
              [\<lparr>event_id = uuid4 e 0, event_timestamp = utcnow e 0, event_level = lvl,
                event_source = src, event_payload = stored_payload payload\<rparr>],
           active := filter (\<lambda>c. c \<notin> closed st) (active st),
           delivered := delivered st @
             map (\<lambda>c. (c, \<lparr>msg_type = ''event'',
                   msg_event = \<lparr>body_level = lvl, body_source = src, body_payload = payload\<rparr>\<rparr>))
               (filter (\<lambda>c. c \<notin> closed st) (active st))\<rparr>))"
  by (simp add: log_event_def insert_event_def broadcast_eq Let_def)

lemma manual_trigger_inactive:
  "manual_trigger e sid False t st =
     (Inr \<lparr>status = ''updated'', level = Some 0\<rparr>, update_is_triggered sid 0 st)"
  by (simp add: manual_trigger_def trigger_level_of_def)

lemma manual_trigger_unknown:
  "\<not> known sid st \<Longrightarrow>
   manual_trigger e sid act t st =
     (if act then (Inl TypeError, st) else (Inr \<lparr>status = ''updated'', level = Some 0\<rparr>, st))"
  using known_fetch [of sid st]
  by (simp add: manual_trigger_def update_unknown Let_def trigger_level_of_def)

lemma manual_trigger_known:
  assumes "fetch_sensor sid st = Some s"
  shows "manual_trigger e sid True t st =
     (let lvl = trigger_level_of e True t; st1 = update_is_triggered sid lvl st
      in if uuid4 e 0 \<in> set (map event_id (events st)) then (Inl IntegrityError, st1)
         else (Inr \<lparr>status = ''updated'', level = Some lvl\<rparr>,
           st1\<lparr>events := events st @
              [\<lparr>event_id = uuid4 e 0, event_timestamp = utcnow e 0,
                event_level = severity_of lvl, event_source = ''manual.trigger'',
                event_payload = Some [(''sensor'', sensor_name s), (''msg'', t)]\<rparr>],
             active := filter (\<lambda>c. c \<notin> closed st) (active st),
             delivered := delivered st @
               map (\<lambda>c. (c, \<lparr>msg_type = ''event'',
                     msg_event = \<lparr>body_level = severity_of lvl, body_source = ''manual.trigger'',
                       body_payload = Some [(''sensor'', sensor_name s), (''msg'', t)]\<rparr>\<rparr>))
                 (filter (\<lambda>c. c \<notin> closed st) (active st))\<rparr>))"
proof -
  have ev: "events (update_is_triggered sid lvl st) = events st"
    and ac: "active (update_is_triggered sid lvl st) = active st"
    and cl: "closed (update_is_triggered sid lvl st) = closed st"
    and de: "delivered (update_is_triggered sid lvl st) = delivered st" for lvl
    by (simp_all add: update_is_triggered_def)
  show ?thesis
    using assms
    by (simp add: manual_trigger_def Let_def fetch_after_update log_event_eq ev ac cl de
        stored_payload_def)
qed

lemma sensors_manual_trigger:
  "sensors (snd (manual_trigger e sid act t st)) =
     sensors (update_is_triggered sid (trigger_level_of e act t) st)"
proof (cases act)
  case False
  then show ?thesis by (simp add: manual_trigger_inactive trigger_level_of_def)
next
  case True
  show ?thesis
  proof (cases "fetch_sensor sid st")
    case None
    then have "\<not> known sid st" by (simp add: known_fetch)
    then show ?thesis using True by (simp add: manual_trigger_unknown update_unknown)
  next
    case (Some s)
    then show ?thesis using True by (simp add: manual_trigger_known Let_def)
  qed
qed

subsection \<open>Ordered queries\<close>

lemma order_by_desc_mset: "mset (order_by_desc key rows) = mset rows"
  by (simp add: order_by_desc_def)

lemma order_by_desc_set: "set (order_by_desc key rows) = set rows"
  by (simp add: order_by_desc_def)

lemma order_by_desc_length: "length (order_by_desc key rows) = length rows"
  by (simp add: order_by_desc_def)

lemma order_by_desc_sorted: "sorted_wrt (\<lambda>a b. key b \<le> key a) (order_by_desc key rows)"
proof -
  have "sorted (map (\<lambda>r. - key r) (sort_key (\<lambda>r. - key r) rows))"
    by (rule sorted_sort_key)
  then show ?thesis by (simp add: sorted_map order_by_desc_def)
qed

lemma order_by_desc_stable:
  "filter (\<lambda>r. key r = k) (order_by_desc key rows) = filter (\<lambda>r. key r = k) rows"
  using sort_key_stable [of "\<lambda>r. - key r" "- k" rows] by (simp add: order_by_desc_def)


lemma sql_limit_sorted: "sorted_wrt R rows \<Longrightarrow> sorted_wrt R (sql_limit n rows)"
  by (simp add: sql_limit_def sorted_wrt_take)

lemma sql_limit_length: "0 \<le> n \<Longrightarrow> length (sql_limit n rows) = min (nat n) (length rows)"
  by (simp add: sql_limit_def)

lemma sql_limit_mset: "mset (sql_limit n rows) \<subseteq># mset rows"
proof -
  have "mset (take k rows) \<subseteq># mset rows" for k
    by (metis append_take_drop_id mset_append mset_subset_eq_add_left)
  then show ?thesis by (simp add: sql_limit_def)
qed


lemma first_row_is_latest:
  assumes "rows \<noteq> []"
  shows "\<exists>r rs. order_by_desc key rows = r # rs \<and> r \<in> set rows \<and>
           (\<forall>q\<in>set rows. key q \<le> key r) \<and>
           r = hd (filter (\<lambda>q. key q = key r) rows)"
proof -
  have "length (order_by_desc key rows) = length rows" by (rule order_by_desc_length)
  with assms obtain r rs where e: "order_by_desc key rows = r # rs"
    by (cases "order_by_desc key rows") auto
  have s: "set (order_by_desc key rows) = set rows" by (rule order_by_desc_set)
  have "sorted_wrt (\<lambda>a b. key b \<le> key a) (r # rs)"
    using order_by_desc_sorted [of key rows] e by simp
  then have top: "\<forall>q\<in>set (r # rs). key q \<le> key r" by auto
  have "filter (\<lambda>q. key q = key r) rows = filter (\<lambda>q. key q = key r) (r # rs)"
    using order_by_desc_stable [of key "key r" rows] e by simp
  then have "hd (filter (\<lambda>q. key q = key r) rows) = r" by simp
  with e s top show ?thesis by auto
qed

subsection \<open>Seeding\<close>

lemma startup_eq:
  "startup e st = (if sensors st = [] then (Inl IntegrityError, st) else (Inr (), st))"
  by (simp add: startup_def seed_def insert_sensor_def)

lemma levels_ok_apply: "levels_ok st \<Longrightarrow> levels_ok (apply_operation opn st)"
proof (cases opn)
  case (Startup e)
  assume "levels_ok st"
  then show ?thesis using Startup by (simp add: startup_eq)
next
  case (Trigger e sid act event_text)
  assume ok: "levels_ok st"
  let ?a = "case act of None \<Rightarrow> True | Some a \<Rightarrow> a"
  let ?t = "case event_text of None \<Rightarrow> ascii ''Manual Trigger'' | Some t \<Rightarrow> t"
  have "levels_ok (update_is_triggered sid (trigger_level_of e ?a ?t) st)"
    using ok trigger_level_range by (rule levels_ok_update)
  then have "levels_ok (snd (manual_trigger e sid ?a ?t st))"
    by (simp add: levels_ok_def sensors_manual_trigger)
  then show ?thesis using Trigger by (simp add: manual_trigger_request_def)
next
  case (Reset sid)
  assume "levels_ok st"
  then have "levels_ok (update_is_triggered sid 0 st)"
    by (rule levels_ok_update) simp
  then show ?thesis using Reset by (simp add: reset_sensor_def)
qed

lemma levels_ok_run: "levels_ok st \<Longrightarrow> levels_ok (run ops st)"
  unfolding run_def by (induction ops arbitrary: st) (simp_all add: levels_ok_apply)

section \<open>The claims\<close>

text \<open>
  C1. For a sensor the registry knows, a trigger with \<open>active = true\<close> sets the sensor's
  level to the specification's classification of the text (case-insensitive keyword
  search, Critical before Warning before Standard) and returns that level. The
  classification is the specification's own, stated without \<open>lower\<close>; the code's agrees
  with it for every Unicode text, given of the Unicode database what
  \<open>unicode_lower_ok\<close> says. The event row's identifier is drawn before the insert: when
  the drawn identifier is already a key of the events table the insert raises, after
  the registry has been updated.
\<close>

theorem manual_trigger_classifies:
  "unicode_lower_ok e \<Longrightarrow> known sid st \<Longrightarrow>
   alert_level sid (snd (manual_trigger e sid True event_text st)) = Some (spec_level event_text) \<and>
   fst (manual_trigger e sid True event_text st) =
     (if uuid4 e 0 \<in> set (map event_id (events st)) then Inl IntegrityError
      else Inr \<lparr>status = ''updated'', level = Some (spec_level event_text)\<rparr>) \<and>
   spec_level event_text =
     (if ci_contains event_text ''break'' \<or> ci_contains event_text ''force'' \<or>
         ci_contains event_text ''critical'' then 3
      else if ci_contains event_text ''tamper'' \<or> ci_contains event_text ''warn'' then 2
      else 1)"
proof -
  assume ok: "unicode_lower_ok e" and k: "known sid st"
  then obtain s where s: "fetch_sensor sid st = Some s"
    by (auto simp: known_fetch)
  have lvl: "trigger_level_of e True event_text = spec_level event_text"
    using ok by (rule trigger_level_spec)
  have sens: "alert_level sid (snd (manual_trigger e sid True event_text st)) =
      Some (spec_level event_text)"
  proof -
    have "alert_level sid (snd (manual_trigger e sid True event_text st)) =
        alert_level sid (update_is_triggered sid (trigger_level_of e True event_text) st)"
      by (rule alert_level_cong) (rule sensors_manual_trigger)
    then show ?thesis using k by (simp add: alert_level_update lvl)
  qed
  have res: "fst (manual_trigger e sid True event_text st) =
     (if uuid4 e 0 \<in> set (map event_id (events st)) then Inl IntegrityError
      else Inr \<lparr>status = ''updated'', level = Some (spec_level event_text)\<rparr>)"
    by (simp add: manual_trigger_known [OF s] Let_def lvl)
  show ?thesis using sens res by (simp add: spec_level_def)
qed

theorem manual_trigger_classifies_witness:
  "unicode_lower_ok (demo_env ''e2'' 11) \<and> known ''s1'' demo_state \<and>
   alert_level ''s1''
     (snd (manual_trigger (demo_env ''e2'' 11) ''s1'' True (ascii ''WARN now'') demo_state))
     = Some 2 \<and>
   fst (manual_trigger (demo_env ''e2'' 11) ''s1'' True (ascii ''WARN now'') demo_state)
     = Inr \<lparr>status = ''updated'', level = Some 2\<rparr> \<and>
   fst (manual_trigger (demo_env ''e2'' 11) ''s1'' True (ascii ''hello'') demo_state)
     = Inr \<lparr>status = ''updated'', level = Some 1\<rparr> \<and>
   fst (manual_trigger (demo_env ''e2'' 11) ''s1'' True (ascii ''Forced entry, tampering'')
     demo_state) = Inr \<lparr>status = ''updated'', level = Some 3\<rparr> \<and>
   fst (manual_trigger (demo_env ''e2'' 11) ''s1'' True (ascii ''CRITICAL'') demo_state)
     = Inr \<lparr>status = ''updated'', level = Some 3\<rparr> \<and>
   fst (manual_trigger (demo_env ''e2'' 11) ''s1'' True [66, 82, 69, 65, 8490, 32, 105, 110]
     demo_state) = Inr \<lparr>status = ''updated'', level = Some 3\<rparr> \<and>
   fst (manual_trigger (demo_env ''e2'' 11) ''s1'' True [67, 82, 304, 84, 73, 67, 65, 76]
     demo_state) = Inr \<lparr>status = ''updated'', level = Some 1\<rparr>"
proof -
  have ok: "unicode_lower_ok (demo_env ''e2'' 11)" by (rule unicode_lower_ok_demo)
  have k: "known ''s1'' demo_state" by (simp add: known_def demo_state_def)
  have fresh: "uuid4 (demo_env ''e2'' 11) 0 \<notin> set (map event_id (events demo_state))"
    by (simp add: demo_env_def demo_state_def)
  have l2: "spec_level (ascii ''WARN now'') = 2"
    by code_simp
  have l1: "spec_level (ascii ''hello'') = 1"
    by code_simp
  have l3: "spec_level (ascii ''Forced entry, tampering'') = 3"
    by code_simp
  have l4: "spec_level (ascii ''CRITICAL'') = 3"
    by code_simp
  have l5: "spec_level [66, 82, 69, 65, 8490, 32, 105, 110] = 3"
    by code_simp
  have l6: "spec_level [67, 82, 304, 84, 73, 67, 65, 76] = 1"
    by code_simp
  note t = manual_trigger_classifies [OF ok k, of _]
  show ?thesis
    using ok k fresh
      t [of "ascii ''WARN now''"] t [of "ascii ''hello''"]
      t [of "ascii ''Forced entry, tampering''"] t [of "ascii ''CRITICAL''"]
      t [of "[66, 82, 69, 65, 8490, 32, 105, 110]"]
      t [of "[67, 82, 304, 84, 73, 67, 65, 76]"]
    by (simp add: l1 l2 l3 l4 l5 l6)
qed

text \<open>
  C2, as the code has it. For a sensor id the registry does not know, a trigger leaves
  the whole state as it was: no registry row changes, the events table keeps its rows
  and no viewer is sent anything. With \<open>active = false\<close> the call returns normally
  with level 0; the code has no not-found failure for sensors.
\<close>

theorem manual_trigger_unknown_sensor:
  "\<not> known sid st \<Longrightarrow>
   snd (manual_trigger e sid act event_text st) = st \<and>
   length (events (snd (manual_trigger e sid act event_text st))) = length (events st) \<and>
   delivered (snd (manual_trigger e sid act event_text st)) = delivered st \<and>
   fst (manual_trigger e sid False event_text st) = Inr \<lparr>status = ''updated'', level = Some 0\<rparr>"
  by (simp add: manual_trigger_unknown)

theorem manual_trigger_unknown_sensor_witness:
  "\<not> known ''ghost'' demo_state \<and>
   snd (manual_trigger (demo_env ''e2'' 11) ''ghost'' True (ascii ''break in'') demo_state)
     = demo_state \<and>
   snd (manual_trigger (demo_env ''e2'' 11) ''ghost'' False (ascii ''break in'') demo_state)
     = demo_state"
proof -
  have k: "\<not> known ''ghost'' demo_state" by (simp add: known_def demo_state_def)
  show ?thesis
    using k
      manual_trigger_unknown_sensor [OF k, of "demo_env ''e2'' 11" True "ascii ''break in''"]
      manual_trigger_unknown_sensor [OF k, of "demo_env ''e2'' 11" False "ascii ''break in''"]
    by simp
qed

text \<open>
  The claim as the specification words it fails: on an unknown sensor id an inactive
  trigger succeeds, and an active one stops on the subscript of the missing row.
\<close>

theorem manual_trigger_unknown_sensor_counterexample:
  "\<not> known ''ghost'' demo_state \<and>
   fst (manual_trigger (demo_env ''e2'' 11) ''ghost'' False (ascii ''break in'') demo_state) =
     Inr \<lparr>status = ''updated'', level = Some 0\<rparr> \<and>
   fst (manual_trigger (demo_env ''e2'' 11) ''ghost'' True (ascii ''break in'') demo_state) =
     Inl TypeError"
proof -
  have k: "\<not> known ''ghost'' demo_state" by (simp add: known_def demo_state_def)
  then show ?thesis by (simp add: manual_trigger_unknown)
qed

text \<open>
  C3. A broadcast never raises. Every attached viewer whose socket accepts the send
  receives the message once for each time it is attached, in the order of attachment,
  whatever happens to the other viewers; every viewer whose send fails is no longer
  attached afterwards, and exactly those are removed.
\<close>

theorem broadcast_contains_faults:
  "fst (broadcast m st) = Inr () \<and>
   active (snd (broadcast m st)) = filter (\<lambda>c. c \<notin> closed st) (active st) \<and>
   delivered (snd (broadcast m st)) =
     delivered st @ map (\<lambda>c. (c, m)) (filter (\<lambda>c. c \<notin> closed st) (active st)) \<and>
   set (active (snd (broadcast m st))) \<inter> closed st = {}"
  by (auto simp: broadcast_eq)

theorem broadcast_contains_faults_witness:
  "fst (broadcast demo_message demo_state) = Inr () \<and>
   active demo_state = [1, 2, 3] \<and>
   active (snd (broadcast demo_message demo_state)) = [1, 3] \<and>
   delivered (snd (broadcast demo_message demo_state)) =
     [(1, demo_message), (3, demo_message)]"
  using broadcast_contains_faults [of demo_message demo_state] by (simp add: demo_state_def)

text \<open>
  C4. A reset sets the sensor's level to 0 (for an id the registry knows; it has no row
  to set otherwise), appends no event and sends nothing; a trigger with
  \<open>active = false\<close> leaves exactly the state a reset leaves, for every text, and
  returns level 0.
\<close>

theorem reset_is_silent:
  "fst (reset_sensor sid st) = Inr \<lparr>status = ''reset'', level = None\<rparr> \<and>
   alert_level sid (snd (reset_sensor sid st)) = (if known sid st then Some 0 else None) \<and>
   events (snd (reset_sensor sid st)) = events st \<and>
   delivered (snd (reset_sensor sid st)) = delivered st \<and>
   active (snd (reset_sensor sid st)) = active st \<and>
   snd (manual_trigger e sid False event_text st) = snd (reset_sensor sid st) \<and>
   fst (manual_trigger e sid False event_text st) = Inr \<lparr>status = ''updated'', level = Some 0\<rparr>"
  by (simp add: reset_sensor_def manual_trigger_inactive alert_level_update)
    (simp add: update_is_triggered_def)

theorem reset_is_silent_witness:
  "alert_level ''s2'' demo_state = Some 2 \<and>
   alert_level ''s2'' (snd (reset_sensor ''s2'' demo_state)) = Some 0 \<and>
   events (snd (reset_sensor ''s2'' demo_state)) = events demo_state \<and>
   snd (manual_trigger (demo_env ''e2'' 11) ''s2'' False (ascii ''break in'') demo_state) =
     snd (reset_sensor ''s2'' demo_state)"
proof -
  have k: "known ''s2'' demo_state" by (simp add: known_def demo_state_def)
  have a: "alert_level ''s2'' demo_state = Some 2"
    by (simp add: alert_level_def fetch_sensor_def demo_state_def)
  show ?thesis
    using k a
      reset_is_silent [of "''s2''" demo_state "demo_env ''e2'' 11" "ascii ''break in''"]
    by simp
qed

text \<open>
  C5, as the code has it. For a positive limit \<open>n\<close> below 2^63 the events query
  returns at most \<open>n\<close> rows (as many as the table has, up to \<open>n\<close>), all of them rows of
  the table, with timestamps that never increase; for a limit of 2^63 or more the
  driver cannot bind the limit and the query raises. In both cases the query leaves
  the state as it was, so asking again on the state it leaves gives the same answer.
  A request without a limit is the query with limit 20.
\<close>

theorem get_events_recent:
  "0 < n \<Longrightarrow>
   (if n < 2 ^ 63
    then (\<exists>out. get_events n st = (Inr out, st) \<and>
            int (length out) \<le> n \<and>
            length out = min (nat n) (length (events st)) \<and>
            mset out \<subseteq># mset (events st) \<and>
            sorted_wrt (\<lambda>a b. event_timestamp b \<le> event_timestamp a) out)
    else get_events n st = (Inl OverflowError, st)) \<and>
   get_events n (snd (get_events n st)) = get_events n st \<and>
   get_events_request None st = get_events 20 st"
proof -
  assume n: "0 < n"
  let ?out = "sql_limit n (order_by_desc event_timestamp (events st))"
  have big: "get_events n st = (Inl OverflowError, st)" if "\<not> n < 2 ^ 63"
    using that by (simp add: get_events_def sqlite_integer_def)
  have 1: "get_events n st = (Inr ?out, st)" if "n < 2 ^ 63"
    using that n by (simp add: get_events_def sqlite_integer_def)
  have 2: "length ?out = min (nat n) (length (events st))"
    using n by (simp add: sql_limit_length order_by_desc_length)
  have 3: "int (length ?out) \<le> n" using 2 n by simp
  have "mset ?out \<subseteq># mset (order_by_desc event_timestamp (events st))"
    by (rule sql_limit_mset)
  then have 4: "mset ?out \<subseteq># mset (events st)" by (simp add: order_by_desc_mset)
  have 5: "sorted_wrt (\<lambda>a b. event_timestamp b \<le> event_timestamp a) ?out"
    by (rule sql_limit_sorted) (rule order_by_desc_sorted)
  have 6: "get_events n (snd (get_events n st)) = get_events n st"
    by (simp add: get_events_def)
  have 7: "get_events_request None st = get_events 20 st"
    by (simp add: get_events_request_def)
  show ?thesis
  proof (cases "n < 2 ^ 63")
    case True
    with 1 2 3 4 5 6 7 show ?thesis by auto
  next
    case False
    with big 6 7 show ?thesis by auto
  qed
qed

theorem get_events_recent_witness:
  "(0::int) < 2 \<and>
   map_sum id (map event_id) (fst (get_events 2 (demo_state\<lparr>events := three_events\<rparr>))) =
     Inr [''e2'', ''e3''] \<and>
   get_events 2 (snd (get_events 2 (demo_state\<lparr>events := three_events\<rparr>))) =
     get_events 2 (demo_state\<lparr>events := three_events\<rparr>) \<and>
   get_events_request None (demo_state\<lparr>events := three_events\<rparr>) =
     get_events 20 (demo_state\<lparr>events := three_events\<rparr>)"
proof -
  have n: "(0::int) < 2" by simp
  have out: "map_sum id (map event_id)
     (fst (get_events 2 (demo_state\<lparr>events := three_events\<rparr>))) = Inr [''e2'', ''e3'']"
    by (simp add: get_events_def sqlite_integer_def sql_limit_def order_by_desc_def
        three_events_def)
  show ?thesis
    using n out get_events_recent [OF n, of "demo_state\<lparr>events := three_events\<rparr>"]
    by simp
qed

text \<open>
  The claim as the specification words it fails for the positive limit 2^63: the
  query raises and returns no events.
\<close>

theorem get_events_recent_counterexample:
  "(0::int) < 2 ^ 63 \<and>
   get_events (2 ^ 63) (demo_state\<lparr>events := three_events\<rparr>) =
     (Inl OverflowError, demo_state\<lparr>events := three_events\<rparr>)"
  by (simp add: get_events_def sqlite_integer_def)

text \<open>
  C6, as the code has it. Saving an assessment whose score fits a signed 64-bit
  integer appends one row whose risk level is Safe when the score is at least 80 and
  Risk otherwise, with the identifier and the timestamp the server draws; a score
  outside that range cannot be bound and the save raises, as it does when the drawn
  identifier is already a key, and stores nothing. The latest-assessment query leaves
  the state alone, answers nothing on an empty table and otherwise the stored row of
  the greatest timestamp, the earliest stored of them when several rows have it. So
  after two saves it answers the second when the second's timestamp is later than
  every stored one.
\<close>

theorem assessment_save_and_latest:
  "save_assessment e score details st =
     (if score < - (2 ^ 63) \<or> 2 ^ 63 \<le> score then (Inl OverflowError, st)
      else if uuid4 e 0 \<in> set (map ra_id (risk_assessments st)) then (Inl IntegrityError, st)
      else (Inr \<lparr>status = ''saved'', level = None\<rparr>,
            st\<lparr>risk_assessments := risk_assessments st @
              [\<lparr>ra_id = uuid4 e 0, ra_timestamp = utcnow e 0, ra_score = score,
                ra_risk_level = (if 80 \<le> score then ''Safe'' else ''Risk''),
                ra_details = Some details\<rparr>]\<rparr>)) \<and>
   snd (get_latest_assessment st) = st \<and>
   (risk_assessments st = [] \<longrightarrow> fst (get_latest_assessment st) = Inr None) \<and>
   (risk_assessments st \<noteq> [] \<longrightarrow>
      (\<exists>r. fst (get_latest_assessment st) = Inr (Some r) \<and>
           r \<in> set (risk_assessments st) \<and>
           (\<forall>q\<in>set (risk_assessments st). ra_timestamp q \<le> ra_timestamp r) \<and>
           r = hd (filter (\<lambda>q. ra_timestamp q = ra_timestamp r) (risk_assessments st)))) \<and>
   (let st1 = snd (save_assessment e1 score1 details1 st);
        st2 = snd (save_assessment e2 score2 details2 st1)
    in fst (save_assessment e2 score2 details2 st1) = Inr \<lparr>status = ''saved'', level = None\<rparr> \<longrightarrow>
       (\<forall>q\<in>set (risk_assessments st1). ra_timestamp q < utcnow e2 0) \<longrightarrow>
       fst (get_latest_assessment st2) =
         Inr (Some \<lparr>ra_id = uuid4 e2 0, ra_timestamp = utcnow e2 0, ra_score = score2,
                ra_risk_level = (if 80 \<le> score2 then ''Safe'' else ''Risk''),
                ra_details = Some details2\<rparr>))"
proof -
  have save: "save_assessment e score details st =
     (if score < - (2 ^ 63) \<or> 2 ^ 63 \<le> score then (Inl OverflowError, st)
      else if uuid4 e 0 \<in> set (map ra_id (risk_assessments st)) then (Inl IntegrityError, st)
      else (Inr \<lparr>status = ''saved'', level = None\<rparr>,
            st\<lparr>risk_assessments := risk_assessments st @
              [\<lparr>ra_id = uuid4 e 0, ra_timestamp = utcnow e 0, ra_score = score,
                ra_risk_level = (if 80 \<le> score then ''Safe'' else ''Risk''),
                ra_details = Some details\<rparr>]\<rparr>))" for e score details st
    by (auto simp: save_assessment_def insert_assessment_def Let_def sqlite_integer_def)
  have frame: "snd (get_latest_assessment st) = st" for st
    by (simp add: get_latest_assessment_def)
  have none: "risk_assessments st = [] \<longrightarrow> fst (get_latest_assessment st) = Inr None"
    by (simp add: get_latest_assessment_def sql_limit_def order_by_desc_def)
  have some: "\<exists>r. fst (get_latest_assessment st) = Inr (Some r) \<and>
           r \<in> set (risk_assessments st) \<and>
           (\<forall>q\<in>set (risk_assessments st). ra_timestamp q \<le> ra_timestamp r) \<and>
           r = hd (filter (\<lambda>q. ra_timestamp q = ra_timestamp r) (risk_assessments st))"
    if ne: "risk_assessments st \<noteq> []" for st
  proof -
    obtain r rs where "order_by_desc ra_timestamp (risk_assessments st) = r # rs"
      "r \<in> set (risk_assessments st)"
      "\<forall>q\<in>set (risk_assessments st). ra_timestamp q \<le> ra_timestamp r"
      "r = hd (filter (\<lambda>q. ra_timestamp q = ra_timestamp r) (risk_assessments st))"
      using first_row_is_latest [OF ne, of ra_timestamp] by blast
    then show ?thesis by (auto simp: get_latest_assessment_def sql_limit_def)
  qed
  have two: "fst (get_latest_assessment (snd (save_assessment e2 score2 details2 st1))) =
         Inr (Some \<lparr>ra_id = uuid4 e2 0, ra_timestamp = utcnow e2 0, ra_score = score2,
                ra_risk_level = (if 80 \<le> score2 then ''Safe'' else ''Risk''),
                ra_details = Some details2\<rparr>)"
    if saved: "fst (save_assessment e2 score2 details2 st1) =
        Inr \<lparr>status = ''saved'', level = None\<rparr>"
      and later: "\<forall>q\<in>set (risk_assessments st1). ra_timestamp q < utcnow e2 0" for st1
  proof -
    let ?row = "\<lparr>ra_id = uuid4 e2 0, ra_timestamp = utcnow e2 0, ra_score = score2,
                ra_risk_level = (if 80 \<le> score2 then ''Safe'' else ''Risk''),
                ra_details = Some details2\<rparr>"
    let ?st2 = "snd (save_assessment e2 score2 details2 st1)"
    have rows: "risk_assessments ?st2 = risk_assessments st1 @ [?row]"
      using saved unfolding save [of e2 score2 details2 st1] by (simp split: if_splits)
    then have "risk_assessments ?st2 \<noteq> []" by simp
    then obtain r where r: "fst (get_latest_assessment ?st2) = Inr (Some r)"
      "r \<in> set (risk_assessments ?st2)"
      "\<forall>q\<in>set (risk_assessments ?st2). ra_timestamp q \<le> ra_timestamp r"
      using some by blast
    have "ra_timestamp ?row \<le> ra_timestamp r" using r(3) rows by simp
    then have "r \<notin> set (risk_assessments st1)" using later by fastforce
    with r(2) rows have "r = ?row" by simp
    with r(1) show ?thesis by simp
  qed
  show ?thesis
    unfolding Let_def
    using save [of e score details st] frame [of st] none some [of st] two by blast
qed

theorem assessment_save_and_latest_witness:
  "map ra_risk_level (risk_assessments
     (snd (save_assessment (demo_env ''a2'' 6) 79 []
       (snd (save_assessment (demo_env ''a1'' 5) 85 [] demo_state))))) = [''Safe'', ''Risk''] \<and>
   fst (get_latest_assessment demo_state) = Inr None \<and>
   fst (get_latest_assessment
     (snd (save_assessment (demo_env ''a2'' 6) 79 []
       (snd (save_assessment (demo_env ''a1'' 5) 85 [] demo_state))))) =
     Inr (Some \<lparr>ra_id = ''a2'', ra_timestamp = 6, ra_score = 79, ra_risk_level = ''Risk'',
            ra_details = Some []\<rparr>)"
proof -
  note t = assessment_save_and_latest [of "demo_env ''a1'' 5" 85 "[]" demo_state
      "demo_env ''a1'' 5" 85 "[]" "demo_env ''a2'' 6" 79 "[]"]
  have d: "risk_assessments demo_state = []" by (simp add: demo_state_def)
  have u: "uuid4 (demo_env ''a1'' 5) 0 = ''a1''" "utcnow (demo_env ''a1'' 5) 0 = 5"
    "uuid4 (demo_env ''a2'' 6) 0 = ''a2''" "utcnow (demo_env ''a2'' 6) 0 = 6"
    by (simp_all add: demo_env_def)
  have s1: "risk_assessments (snd (save_assessment (demo_env ''a1'' 5) 85 [] demo_state)) =
      [\<lparr>ra_id = ''a1'', ra_timestamp = 5, ra_score = 85, ra_risk_level = ''Safe'',
        ra_details = Some []\<rparr>]"
    by (simp add: save_assessment_def insert_assessment_def sqlite_integer_def Let_def d u)
  have s2: "risk_assessments (snd (save_assessment (demo_env ''a2'' 6) 79 []
       (snd (save_assessment (demo_env ''a1'' 5) 85 [] demo_state)))) =
      [\<lparr>ra_id = ''a1'', ra_timestamp = 5, ra_score = 85, ra_risk_level = ''Safe'',
        ra_details = Some []\<rparr>,
       \<lparr>ra_id = ''a2'', ra_timestamp = 6, ra_score = 79, ra_risk_level = ''Risk'',
        ra_details = Some []\<rparr>]"
    by (simp add: save_assessment_def insert_assessment_def sqlite_integer_def Let_def d u)
  note last = t [unfolded Let_def, THEN conjunct2, THEN conjunct2, THEN conjunct2,
      THEN conjunct2]
  have saved: "fst (save_assessment (demo_env ''a2'' 6) 79 []
      (snd (save_assessment (demo_env ''a1'' 5) 85 [] demo_state))) =
      Inr \<lparr>status = ''saved'', level = None\<rparr>"
    by (simp add: save_assessment_def insert_assessment_def sqlite_integer_def Let_def d u)
  have later: "\<forall>q\<in>set (risk_assessments (snd (save_assessment (demo_env ''a1'' 5) 85 []
        demo_state))). ra_timestamp q < utcnow (demo_env ''a2'' 6) 0"
    by (simp add: s1 u)
  have latest: "fst (get_latest_assessment
     (snd (save_assessment (demo_env ''a2'' 6) 79 []
       (snd (save_assessment (demo_env ''a1'' 5) 85 [] demo_state))))) =
     Inr (Some \<lparr>ra_id = ''a2'', ra_timestamp = 6, ra_score = 79, ra_risk_level = ''Risk'',
            ra_details = Some []\<rparr>)"
    using mp [OF mp [OF last saved] later] by (simp add: u)
  have empty: "fst (get_latest_assessment demo_state) = Inr None"
    by (simp add: get_latest_assessment_def sql_limit_def order_by_desc_def d)
  show ?thesis
    using latest empty by (simp add: s2)
qed

text \<open>
  The claim as the specification words it fails twice. Two saves that draw the same
  timestamp are both stored, and the latest-assessment query answers the first of
  them, not the second; and a score of 2^63 is not persisted at all.
\<close>

theorem assessment_save_and_latest_counterexample:
  "map ra_id (risk_assessments
     (snd (save_assessment (demo_env ''a2'' 5) 79 []
       (snd (save_assessment (demo_env ''a1'' 5) 85 [] demo_state))))) = [''a1'', ''a2''] \<and>
   fst (get_latest_assessment
     (snd (save_assessment (demo_env ''a2'' 5) 79 []
       (snd (save_assessment (demo_env ''a1'' 5) 85 [] demo_state))))) =
     Inr (Some \<lparr>ra_id = ''a1'', ra_timestamp = 5, ra_score = 85, ra_risk_level = ''Safe'',
            ra_details = Some []\<rparr>) \<and>
   save_assessment (demo_env ''a1'' 5) (2 ^ 63) [] demo_state = (Inl OverflowError, demo_state)"
proof -
  have d: "risk_assessments demo_state = []" by (simp add: demo_state_def)
  have u: "uuid4 (demo_env ''a1'' 5) 0 = ''a1''" "utcnow (demo_env ''a1'' 5) 0 = 5"
    "uuid4 (demo_env ''a2'' 5) 0 = ''a2''" "utcnow (demo_env ''a2'' 5) 0 = 5"
    by (simp_all add: demo_env_def)
  have s2: "risk_assessments (snd (save_assessment (demo_env ''a2'' 5) 79 []
       (snd (save_assessment (demo_env ''a1'' 5) 85 [] demo_state)))) =
      [\<lparr>ra_id = ''a1'', ra_timestamp = 5, ra_score = 85, ra_risk_level = ''Safe'',
        ra_details = Some []\<rparr>,
       \<lparr>ra_id = ''a2'', ra_timestamp = 5, ra_score = 79, ra_risk_level = ''Risk'',
        ra_details = Some []\<rparr>]"
    by (simp add: save_assessment_def insert_assessment_def sqlite_integer_def Let_def d u)
  have big: "save_assessment (demo_env ''a1'' 5) (2 ^ 63) [] demo_state =
      (Inl OverflowError, demo_state)"
    by (simp add: save_assessment_def insert_assessment_def sqlite_integer_def Let_def)
  show ?thesis
    using big
    by (simp add: get_latest_assessment_def s2 sql_limit_def order_by_desc_def)
qed

text \<open>
  C7. When a trigger with \<open>active = true\<close> on a known sensor logs its event, the row
  appended to the events table has the level word of the classified level (critical
  for 3, warn for 2, info otherwise), the source manual.trigger, the payload with the
  sensor's name and the text, the identifier drawn from \<open>uuid4\<close> (which is not a key of
  any earlier row: keys stay distinct) and the timestamp drawn from \<open>utcnow\<close>; every
  viewer whose socket accepts it is sent the message of type event with the same
  level, source and payload. When the drawn identifier is already a key, nothing is
  appended and nothing is sent.
\<close>

theorem manual_trigger_logs_event:
  "fetch_sensor sid st = Some s \<Longrightarrow>
   (let st' = snd (manual_trigger e sid True event_text st);
        lvl = trigger_level_of e True event_text;
        word = (if lvl = 3 then ''critical'' else if lvl = 2 then ''warn'' else ''info'');
        payload = Some [(''sensor'', sensor_name s), (''msg'', event_text)]
    in (if uuid4 e 0 \<in> set (map event_id (events st))
        then events st' = events st \<and> delivered st' = delivered st
        else events st' = events st @
               [\<lparr>event_id = uuid4 e 0, event_timestamp = utcnow e 0, event_level = word,
                 event_source = ''manual.trigger'', event_payload = payload\<rparr>] \<and>
             delivered st' = delivered st @
               map (\<lambda>c. (c, \<lparr>msg_type = ''event'',
                     msg_event = \<lparr>body_level = word, body_source = ''manual.trigger'',
                       body_payload = payload\<rparr>\<rparr>))
                 (filter (\<lambda>c. c \<notin> closed st) (active st))) \<and>
       (distinct (map event_id (events st)) = distinct (map event_id (events st'))))"
  by (simp add: manual_trigger_known Let_def severity_of_def update_is_triggered_def)

theorem manual_trigger_logs_event_witness:
  "events (snd (manual_trigger (demo_env ''e2'' 11) ''s1'' True (ascii ''BREAK in'')
     demo_state)) =
     events demo_state @
       [\<lparr>event_id = ''e2'', event_timestamp = 11, event_level = ''critical'',
         event_source = ''manual.trigger'',
         event_payload = Some [(''sensor'', ascii ''Front Door''), (''msg'', ascii ''BREAK in'')]\<rparr>] \<and>
   map fst (delivered (snd (manual_trigger (demo_env ''e2'' 11) ''s1'' True (ascii ''BREAK in'')
     demo_state))) = [1, 3]"
proof -
  have f: "fetch_sensor ''s1'' demo_state =
      Some \<lparr>sensor_id = ''s1'', sensor_name = ascii ''Front Door'', sensor_type = ''door'',
        is_triggered = 0, sensitivity = 1\<rparr>"
    by (simp add: fetch_sensor_def demo_state_def)
  have l: "trigger_level_of (demo_env ''e2'' 11) True (ascii ''BREAK in'') = 3" by code_simp
  have u: "uuid4 (demo_env ''e2'' 11) 0 = ''e2''" "utcnow (demo_env ''e2'' 11) 0 = 11"
    by (simp_all add: demo_env_def)
  have d: "events demo_state = [\<lparr>event_id = ''e1'', event_timestamp = 10, event_level = ''warn'',
          event_source = ''manual.trigger'',
          event_payload =
            Some [(''sensor'', ascii ''Kitchen Window''), (''msg'', ascii ''tamper'')]\<rparr>]"
    "active demo_state = [1, 2, 3]" "closed demo_state = {2}" "delivered demo_state = []"
    by (simp_all add: demo_state_def)
  show ?thesis
    using manual_trigger_logs_event [OF f, of "demo_env ''e2'' 11" "ascii ''BREAK in''"]
    by (simp add: Let_def l u d)
qed

text \<open>
  C8. From the empty database, and from any state whose sensors all have a level in
  0..3, every sequence of startups, triggers (with any parameters, given or left out)
  and resets leaves every sensor with a level in 0..3. Seeding itself adds no sensor:
  on an empty registry the first seed insert binds no sensitivity and raises, and a
  registry that has rows is not seeded.
\<close>

theorem alert_levels_in_range:
  "(\<forall>s\<in>set (sensors (run ops empty_db)). is_triggered s \<in> {0, 1, 2, 3}) \<and>
   ((\<forall>s\<in>set (sensors st). is_triggered s \<in> {0, 1, 2, 3}) \<longrightarrow>
    (\<forall>s\<in>set (sensors (run ops st)). is_triggered s \<in> {0, 1, 2, 3}))"
proof -
  have "levels_ok empty_db" by (simp add: levels_ok_def empty_db_def)
  then have "levels_ok (run ops empty_db)" by (rule levels_ok_run)
  moreover have "levels_ok st \<longrightarrow> levels_ok (run ops st)" by (simp add: levels_ok_run)
  ultimately show ?thesis by (simp add: levels_ok_def list_all_iff)
qed

theorem alert_levels_in_range_witness:
  "fst (startup (demo_env ''s'' 0) empty_db) = Inl IntegrityError \<and>
   sensors (run
      [Startup (demo_env ''s'' 0),
       Trigger (demo_env ''e1'' 1) ''s'' None (Some (ascii ''Break-in'')),
       Reset ''s''] empty_db) = [] \<and>
   map is_triggered (sensors demo_state) = [0, 2] \<and>
   map is_triggered (sensors (run
      [Startup (demo_env ''s'' 0),
       Trigger (demo_env ''e2'' 11) ''s1'' None (Some (ascii ''Break-in'')),
       Trigger (demo_env ''e3'' 12) ''s2'' None None,
       Reset ''s1'',
       Trigger (demo_env ''e4'' 13) ''s1'' (Some True) (Some (ascii ''tamper'')),
       Trigger (demo_env ''e5'' 14) ''s2'' (Some False) (Some (ascii ''critical''))]
      demo_state)) = [2, 0] \<and>
   list_all (\<lambda>s. is_triggered s \<in> {0, 1, 2, 3}) (sensors (run
      [Startup (demo_env ''s'' 0),
       Trigger (demo_env ''e2'' 11) ''s1'' None (Some (ascii ''Break-in'')),
       Trigger (demo_env ''e3'' 12) ''s2'' None None,
       Reset ''s1'',
       Trigger (demo_env ''e4'' 13) ''s1'' (Some True) (Some (ascii ''tamper'')),
       Trigger (demo_env ''e5'' 14) ''s2'' (Some False) (Some (ascii ''critical''))]
      demo_state))"
proof -
  let ?early = "[Startup (demo_env ''s'' 0),
       Trigger (demo_env ''e1'' 1) ''s'' None (Some (ascii ''Break-in'')),
       Reset ''s'']"
  let ?ops = "[Startup (demo_env ''s'' 0),
       Trigger (demo_env ''e2'' 11) ''s1'' None (Some (ascii ''Break-in'')),
       Trigger (demo_env ''e3'' 12) ''s2'' None None,
       Reset ''s1'',
       Trigger (demo_env ''e4'' 13) ''s1'' (Some True) (Some (ascii ''tamper'')),
       Trigger (demo_env ''e5'' 14) ''s2'' (Some False) (Some (ascii ''critical''))]"
  have l: "trigger_level_of (demo_env ''e2'' 11) True (ascii ''Break-in'') = 3"
    "trigger_level_of (demo_env ''e4'' 13) True (ascii ''tamper'') = 2"
    by code_simp+
  have s0: "fst (startup (demo_env ''s'' 0) empty_db) = Inl IntegrityError"
    by (simp add: startup_eq empty_db_def)
  have e0: "sensors (run ?early empty_db) = []"
    by (simp add: run_def startup_eq manual_trigger_request_def sensors_manual_trigger
        reset_sensor_def update_is_triggered_def empty_db_def)
  have d: "\<forall>s\<in>set (sensors demo_state). is_triggered s \<in> {0, 1, 2, 3}"
    "map is_triggered (sensors demo_state) = [0, 2]"
    by (simp_all add: demo_state_def)
  have lv: "map is_triggered (sensors (run ?ops demo_state)) = [2, 0]"
    by (simp add: run_def startup_eq manual_trigger_request_def sensors_manual_trigger
        reset_sensor_def update_is_triggered_def l manual_text_level
        trigger_level_of_def [of _ False])
      (simp add: demo_state_def)
  have r: "\<forall>s\<in>set (sensors (run ?ops demo_state)). is_triggered s \<in> {0, 1, 2, 3}"
    using alert_levels_in_range [of ?ops demo_state] d(1) by blast
  have "list_all (\<lambda>s. is_triggered s \<in> {0, 1, 2, 3}) (sensors (run ?ops demo_state))"
    using r unfolding list_all_iff .
  with s0 e0 d(2) lv show ?thesis by blast
qed




text \<open>
  C10. A trigger request that leaves out \<open>active\<close> and \<open>event_text\<close> is the trigger with
  \<open>active = true\<close> and the text Manual Trigger. On a known sensor it sets the level to
  1; unless the drawn event identifier is already a key (then the insert raises), it
  returns level 1, appends one event of level info and sends the event message to
  every viewer whose socket accepts it.
\<close>

theorem bare_trigger_defaults:
  "fetch_sensor sid st = Some s \<Longrightarrow>
   (let r = manual_trigger_request e sid None None st
    in r = manual_trigger e sid True (ascii ''Manual Trigger'') st \<and>
       alert_level sid (snd r) = Some 1 \<and>
       (if uuid4 e 0 \<in> set (map event_id (events st)) then fst r = Inl IntegrityError
        else fst r = Inr \<lparr>status = ''updated'', level = Some 1\<rparr> \<and>
             events (snd r) = events st @
               [\<lparr>event_id = uuid4 e 0, event_timestamp = utcnow e 0, event_level = ''info'',
                 event_source = ''manual.trigger'',
                 event_payload =
                   Some [(''sensor'', sensor_name s), (''msg'', ascii ''Manual Trigger'')]\<rparr>] \<and>
             delivered (snd r) = delivered st @
               map (\<lambda>c. (c, \<lparr>msg_type = ''event'',
                     msg_event = \<lparr>body_level = ''info'', body_source = ''manual.trigger'',
                       body_payload =
                         Some [(''sensor'', sensor_name s),
                               (''msg'', ascii ''Manual Trigger'')]\<rparr>\<rparr>))
                 (filter (\<lambda>c. c \<notin> closed st) (active st))))"
proof -
  assume s: "fetch_sensor sid st = Some s"
  have l: "trigger_level_of e True (ascii ''Manual Trigger'') = 1"
    by (rule manual_text_level)
  have k: "known sid st" using s by (simp add: known_fetch)
  have a: "alert_level sid (snd (manual_trigger e sid True (ascii ''Manual Trigger'') st)) =
      Some 1"
  proof -
    have "alert_level sid (snd (manual_trigger e sid True (ascii ''Manual Trigger'') st)) =
        alert_level sid
          (update_is_triggered sid (trigger_level_of e True (ascii ''Manual Trigger'')) st)"
      by (rule alert_level_cong) (rule sensors_manual_trigger)
    then show ?thesis using k by (simp add: alert_level_update l)
  qed
  have r: "manual_trigger_request e sid None None st =
      manual_trigger e sid True (ascii ''Manual Trigger'') st"
    by (simp add: manual_trigger_request_def)
  show ?thesis
    unfolding Let_def r
    using a
    by (simp add: manual_trigger_known [OF s] Let_def l severity_of_def update_is_triggered_def)
qed

theorem bare_trigger_defaults_witness:
  "alert_level ''s2'' (snd (manual_trigger_request (demo_env ''e2'' 11) ''s2'' None None demo_state))
     = Some 1 \<and>
   fst (manual_trigger_request (demo_env ''e2'' 11) ''s2'' None None demo_state)
     = Inr \<lparr>status = ''updated'', level = Some 1\<rparr> \<and>
   map event_level (events (snd (manual_trigger_request (demo_env ''e2'' 11) ''s2'' None None
     demo_state))) = [''warn'', ''info''] \<and>
   map fst (delivered (snd (manual_trigger_request (demo_env ''e2'' 11) ''s2'' None None
     demo_state))) = [1, 3]"
proof -
  have f: "fetch_sensor ''s2'' demo_state =
      Some \<lparr>sensor_id = ''s2'', sensor_name = ascii ''Kitchen Window'', sensor_type = ''window'',
        is_triggered = 2, sensitivity = 1\<rparr>"
    by (simp add: fetch_sensor_def demo_state_def)
  have u: "uuid4 (demo_env ''e2'' 11) 0 = ''e2''" "utcnow (demo_env ''e2'' 11) 0 = 11"
    by (simp_all add: demo_env_def)
  have d: "events demo_state = [\<lparr>event_id = ''e1'', event_timestamp = 10, event_level = ''warn'',
          event_source = ''manual.trigger'',
          event_payload =
            Some [(''sensor'', ascii ''Kitchen Window''), (''msg'', ascii ''tamper'')]\<rparr>]"
    "active demo_state = [1, 2, 3]" "closed demo_state = {2}" "delivered demo_state = []"
    by (simp_all add: demo_state_def)
  have r: "manual_trigger_request (demo_env ''e2'' 11) ''s2'' None None demo_state =
      manual_trigger (demo_env ''e2'' 11) ''s2'' True (ascii ''Manual Trigger'') demo_state"
    by (simp add: manual_trigger_request_def)
  show ?thesis
    using bare_trigger_defaults [OF f, of "demo_env ''e2'' 11"]
    unfolding r by (simp add: Let_def u d)
qed

end
